theory Spec2Isabelle
  imports Main "HOL-Library.Sublist" "HOL-Library.Multiset"
begin

section \<open>The tokenizer wrapper\<close>

text \<open>
  \<^verbatim>\<open>TikTokenizer\<close> wraps an encoding object of the external \<^verbatim>\<open>tiktoken\<close> library.
  The library is not part of the program, so the encoding is a parameter of the model:
  any function that, given a text, returns a list of token ids or raises (\<open>Inl\<close> the
  message of the exception, as the library raises for a text that holds a special token
  it has not been allowed). \<^verbatim>\<open>encode\<close> delegates to it and handles nothing.
  A text is the list of its characters; nothing below depends on what a character is.
\<close>

type_synonym token = int
type_synonym encoder = "string \<Rightarrow> string + token list"

definition encode :: "encoder \<Rightarrow> string \<Rightarrow> string + token list" where
  "encode encoding string = encoding string"

subsection \<open>Chunking\<close>

text \<open>
  \<^verbatim>\<open>range(start, stop, step)\<close> for a positive step. (Python raises for step 0; the
  program only ever passes 1000.)
\<close>

function range_step :: "nat \<Rightarrow> nat \<Rightarrow> nat \<Rightarrow> nat list" where
  "range_step start stop step =
     (if step = 0 \<or> stop \<le> start then [] else start # range_step (start + step) stop step)"
  by pat_completeness auto
termination
  by (relation "measure (\<lambda>(start, stop, step). stop - start)") auto

declare range_step.simps [simp del]

text \<open>The slice \<^verbatim>\<open>s[i:j]\<close> for \<open>0 \<le> i \<le> j\<close>; Python clamps both ends to the length.\<close>

definition slice :: "'a list \<Rightarrow> nat \<Rightarrow> nat \<Rightarrow> 'a list" where
  "slice s i j = take (j - i) (drop i s)"

text \<open>
  \<^verbatim>\<open>chunks = [string[i : i + 1000] for i in range(0, len(string), 1000)]\<close>
\<close>

definition chunks :: "string \<Rightarrow> string list" where
  "chunks string = map (\<lambda>i. slice string i (i + 1000)) (range_step 0 (length string) 1000)"

subsection \<open>The worker pool\<close>

text \<open>
  The worker \<^verbatim>\<open>count_tokens_in_chunk\<close> runs
  \<^verbatim>\<open>num_tokens += len(self.encoding.encode(chunk))\<close> on the variable \<^verbatim>\<open>num_tokens\<close>
  of the enclosing call. Run without interruption, it maps the old value of the counter to
  the new one; when the encoding raises, the exception leaves the worker and the counter
  is not written.
\<close>

definition count_tokens_in_chunk :: "encoder \<Rightarrow> string \<Rightarrow> nat \<Rightarrow> string + nat" where
  "count_tokens_in_chunk encoding chunk num_tokens =
     (case encoding chunk of
        Inl e \<Rightarrow> Inl e
      | Inr tokens \<Rightarrow> Inr (num_tokens + length tokens))"

text \<open>
  The workers run on the threads of a \<^verbatim>\<open>ThreadPoolExecutor(max_workers=10)\<close>, one task
  per chunk, and share \<^verbatim>\<open>num_tokens\<close>. An augmented assignment evaluates its target
  first: the worker reads \<^verbatim>\<open>num_tokens\<close>, then encodes the chunk, then writes the sum
  back. These are the two accesses to the shared variable, \<open>Load i\<close> and \<open>Store i\<close> for
  the task of chunk \<open>i\<close>, and other workers may run between them. A run of the pool is
  the list of these accesses in the order in which they happen, its schedule. The state
  holds the shared counter and, for each task between its two accesses, the value it read.
  An exception raised in a worker is kept in the future of its task, and
  \<^verbatim>\<open>count_tokens\<close> reads the result of no future: such a task ends at its \<open>Store\<close>
  without writing, and nothing is raised.
\<close>

datatype event = Load nat | Store nat

fun task_of :: "event \<Rightarrow> nat" where
  "task_of (Load i) = i"
| "task_of (Store i) = i"

record pool_state =
  num_tokens :: nat
  loaded :: "nat \<Rightarrow> nat option"

fun pool_step :: "encoder \<Rightarrow> string list \<Rightarrow> event \<Rightarrow> pool_state \<Rightarrow> pool_state" where
  "pool_step encoding cs (Load i) st =
     (if i < length cs then st\<lparr>loaded := (loaded st)(i \<mapsto> num_tokens st)\<rparr> else st)"
| "pool_step encoding cs (Store i) st =
     (case loaded st i of
        None \<Rightarrow> st
      | Some v \<Rightarrow>
          (case count_tokens_in_chunk encoding (cs ! i) v of
             Inl e \<Rightarrow> st\<lparr>loaded := (loaded st)(i := None)\<rparr>
           | Inr n \<Rightarrow> st\<lparr>num_tokens := n, loaded := (loaded st)(i := None)\<rparr>))"

definition run_pool :: "encoder \<Rightarrow> string list \<Rightarrow> event list \<Rightarrow> pool_state \<Rightarrow> pool_state" where
  "run_pool encoding cs sched st = fold (pool_step encoding cs) sched st"

text \<open>
  \<^verbatim>\<open>count_tokens\<close>: the counter starts at 0, every chunk is submitted,
  \<^verbatim>\<open>concurrent.futures.wait\<close> returns when all tasks are done, and the counter is
  returned.
\<close>

definition count_tokens :: "encoder \<Rightarrow> event list \<Rightarrow> string \<Rightarrow> nat" where
  "count_tokens encoding sched string =
     num_tokens (run_pool encoding (chunks string) sched
                   \<lparr>num_tokens = 0, loaded = (\<lambda>i. None)\<rparr>)"

text \<open>
  The schedules of a pool with \<open>n\<close> tasks: every task reads once and then writes once,
  no other task appears, and at most 10 tasks (the number of worker threads) are between
  their read and their write at any moment.
\<close>

fun in_flight :: "event list \<Rightarrow> int" where
  "in_flight [] = 0"
| "in_flight (Load i # es) = in_flight es + 1"
| "in_flight (Store i # es) = in_flight es - 1"

definition wf_schedule :: "nat \<Rightarrow> event list \<Rightarrow> bool" where
  "wf_schedule n sched \<longleftrightarrow>
     list_all (\<lambda>i. filter (\<lambda>e. task_of e = i) sched = [Load i, Store i]) [0..<n] \<and>
     list_all (\<lambda>e. task_of e < n) sched \<and>
     list_all (\<lambda>k. in_flight (take k sched) \<le> 10) [0..<Suc (length sched)]"

text \<open>
  The schedule in which the tasks run one after another, in the given order, each writing
  before the next one reads.
\<close>

definition serial :: "nat list \<Rightarrow> event list" where
  "serial order = concat (map (\<lambda>i. [Load i, Store i]) order)"

text \<open>
  The count of a chunk, which its task adds to the counter: the number of its tokens, and
  nothing when the encoding raises.
\<close>

definition chunk_count :: "encoder \<Rightarrow> string \<Rightarrow> nat" where
  "chunk_count encoding chunk =
     (case encoding chunk of Inl e \<Rightarrow> 0 | Inr tokens \<Rightarrow> length tokens)"

text \<open>
  The counts of the chunks whose task has ended, after a part of a schedule: the bound
  that the counter keeps in every run.
\<close>

definition written :: "encoder \<Rightarrow> string list \<Rightarrow> event list \<Rightarrow> nat" where
  "written encoding cs pre =
     (\<Sum>i \<in> {i. i < length cs \<and> Store i \<in> set pre}. chunk_count encoding (cs ! i))"

subsection \<open>Encoders\<close>

text \<open>
  An encoder is additive (context-free) when it raises for no text and the number of
  tokens of a text is the sum of the numbers of tokens of its parts, wherever the text is
  cut.
\<close>

definition additive :: "encoder \<Rightarrow> bool" where
  "additive encoding \<longleftrightarrow>
     (\<forall>s. \<exists>tokens. encoding s = Inr tokens) \<and>
     (\<forall>a b. chunk_count encoding (a @ b) = chunk_count encoding a + chunk_count encoding b)"

text \<open>Two encoders to run the model on, which never raise: one token per character,\<close>

definition byte_enc :: encoder where
  "byte_enc s = Inr (map (\<lambda>c. int (of_char c)) s)"

text \<open>
  and one token per word and per space, as a vocabulary that holds every word gives.
\<close>

fun split_words :: "string \<Rightarrow> string \<Rightarrow> string list" where
  "split_words w [] = (if w = [] then [] else [w])"
| "split_words w (c # cs) =
     (if c = CHR '' '' then (if w = [] then [] else [w]) @ [c] # split_words [] cs
      else split_words (w @ [c]) cs)"

definition word_id :: "string \<Rightarrow> token" where
  "word_id w = foldl (\<lambda>h c. 256 * h + int (of_char c)) 0 w"

definition word_enc :: encoder where
  "word_enc s = Inr (map word_id (split_words [] s))"

section \<open>The code executor\<close>

text \<open>\<^verbatim>\<open>str\<close> of an integer, for the messages that print one.\<close>

function str_nat :: "nat \<Rightarrow> string" where
  "str_nat n =
     (if n < 10 then [char_of (48 + n)] else str_nat (n div 10) @ [char_of (48 + n mod 10)])"
  by pat_completeness auto
termination
  by (relation "measure id") auto

declare str_nat.simps [simp del]

definition str_int :: "int \<Rightarrow> string" where
  "str_int i = (if i < 0 then CHR ''-'' # str_nat (nat (- i)) else str_nat (nat i))"

text \<open>
  The slice \<^verbatim>\<open>s[:j]\<close> for any integer \<open>j\<close>: a negative \<open>j\<close> counts from the end.
\<close>

definition slice_to :: "'a list \<Rightarrow> int \<Rightarrow> 'a list" where
  "slice_to s j = (if j < 0 then take (nat (int (length s) + j)) s else take (nat j) s)"

text \<open>
  Exceptions that leave \<^verbatim>\<open>execute\<close>, with their message. \<open>Uncaught\<close> is whatever
  \<^verbatim>\<open>subprocess.run\<close> raises other than \<^verbatim>\<open>CalledProcessError\<close> (the interpreter is not
  found, say): no handler catches it.
\<close>

datatype error = ValueError string | RuntimeError string | Uncaught string

text \<open>What a call does to the outside, in order.\<close>

datatype level = INFO | WARNING | ERROR

datatype io = Format string | Log level string | Run "string list" | Print string

record completed_process =
  returncode :: int
  stdout :: string
  stderr :: string

record executor =
  max_output_length :: int
  artifacts_dir :: string
  language :: string
  tokenizer :: encoder

text \<open>
  What the outside answers: \<^verbatim>\<open>black.format_str\<close> returns the formatted code or raises
  (\<open>Inl\<close> the message of the exception; a failing \<^verbatim>\<open>import black\<close> is raised inside the
  same \<^verbatim>\<open>try\<close>); the process started by \<^verbatim>\<open>subprocess.run\<close> ends with an exit status
  and its two captured streams, or the call raises before there is a process; and the
  worker threads of \<^verbatim>\<open>count_tokens\<close> run in some schedule.
\<close>

record env =
  black_format_str :: "string \<Rightarrow> string + string"
  subprocess_run :: "string list \<Rightarrow> string + completed_process"
  schedule :: "event list"

definition format_code :: "env \<Rightarrow> string \<Rightarrow> (error + string) \<times> io list" where
  "format_code env code =
     (case black_format_str env code of
        Inr formatted_code \<Rightarrow> (Inr formatted_code, [Format code])
      | Inl e \<Rightarrow>
          (Inl (ValueError (''Error formatting code: '' @ e)),
           [Format code, Log ERROR (''Error formatting code: '' @ e)]))"

text \<open>
  \<^verbatim>\<open>execute\<close>. The \<^verbatim>\<open>ValueError\<close> of \<^verbatim>\<open>format_code\<close> passes the handler, which
  catches \<^verbatim>\<open>CalledProcessError\<close> only; \<^verbatim>\<open>check=True\<close> raises that error when the
  exit status is not 0.
\<close>

definition execute :: "executor \<Rightarrow> env \<Rightarrow> string \<Rightarrow> (error + string) \<times> io list" where
  "execute self env code =
     (case format_code env code of
        (Inl err, io0) \<Rightarrow> (Inl err, io0)
      | (Inr formatted_code, io0) \<Rightarrow>
          (let argv = [language self, ''-c'', formatted_code];
               io1 = io0 @ [Log INFO (''Executing code:'' @ [CHR 0x0A] @ formatted_code), Run argv]
           in case subprocess_run env argv of
                Inl e \<Rightarrow> (Inl (Uncaught e), io1)
              | Inr completed_process \<Rightarrow>
                  if returncode completed_process \<noteq> 0
                  then (Inl (RuntimeError
                               (''Error executing code: '' @ stderr completed_process)),
                        io1 @ [Log ERROR
                                 (''Error executing code: '' @ stderr completed_process)])
                  else
                    (let output = stdout completed_process;
                         token_count = count_tokens (tokenizer self) (schedule env) output;
                         io2 = io1 @ [Log INFO (''Code output:'' @ [CHR 0x0A] @ output),
                                      Print (str_nat token_count)]
                     in if max_output_length self \<noteq> 0
                           \<and> int token_count > max_output_length self
                        then (Inr (slice_to output (max_output_length self) @ ''...''),
                              io2 @ [Log WARNING
                                       (''Output length exceeds ''
                                        @ str_int (max_output_length self)
                                        @ '' characters. Truncating output.'')])
                        else (Inr output, io2))))"

subsection \<open>Executors and environments to run the model on\<close>

text \<open>
  The fields \<^verbatim>\<open>__init__\<close> sets, with its defaults for the directory and the language.
\<close>

definition code_executor :: "int \<Rightarrow> encoder \<Rightarrow> executor" where
  "code_executor max_len encoding =
     \<lparr>max_output_length = max_len, artifacts_dir = ''artifacts'', language = ''python3'',
      tokenizer = encoding\<rparr>"

text \<open>
  The formatter leaves the code as it is and the program exits with the given status,
  having written the given texts to its two streams; the output, of one chunk, is counted
  by one worker.
\<close>

definition env_exits :: "int \<Rightarrow> string \<Rightarrow> string \<Rightarrow> env" where
  "env_exits status out err =
     \<lparr>black_format_str = Inr,
      subprocess_run = (\<lambda>argv. Inr \<lparr>returncode = status, stdout = out, stderr = err\<rparr>),
      schedule = [Load 0, Store 0]\<rparr>"

text \<open>The formatter rejects every code with the given message.\<close>

definition env_unparsable :: "string \<Rightarrow> env" where
  "env_unparsable msg =
     \<lparr>black_format_str = (\<lambda>code. Inl msg),
      subprocess_run = (\<lambda>argv. Inl ''not started''),
      schedule = []\<rparr>"

section \<open>Properties of the chunking\<close>

lemma range_step_Nil: "stop \<le> start \<Longrightarrow> range_step start stop step = []"
  by (subst range_step.simps) simp

lemma range_step_Cons:
  "0 < step \<Longrightarrow> start < stop \<Longrightarrow>
   range_step start stop step = start # range_step (start + step) stop step"
  by (subst range_step.simps) simp

lemma range_step_shift:
  "range_step (a + d) (b + d) step = map (\<lambda>x. x + d) (range_step a b step)"
proof (induction a b step rule: range_step.induct)
  case (1 start stop step)
  show ?case
  proof (cases "step = 0 \<or> stop \<le> start")
    case True
    then have "range_step start stop step = []" "range_step (start + d) (stop + d) step = []"
      by (subst range_step.simps, simp)+
    then show ?thesis by simp
  next
    case False
    then have ih: "range_step (start + step + d) (stop + d) step
        = map (\<lambda>x. x + d) (range_step (start + step) stop step)"
      using 1 by simp
    have a: "range_step start stop step = start # range_step (start + step) stop step"
      using False by (intro range_step_Cons) simp_all
    have b: "range_step (start + d) (stop + d) step
        = (start + d) # range_step (start + d + step) (stop + d) step"
      using False by (intro range_step_Cons) simp_all
    have c: "start + d + step = start + step + d" by simp
    show ?thesis unfolding a b c ih by simp
  qed
qed

lemma chunks_Nil: "chunks [] = []"
  by (simp add: chunks_def range_step_Nil)

text \<open>The first chunk is the first 1000 characters; the others are the chunks of the rest.\<close>

lemma chunks_rec:
  assumes "string \<noteq> []"
  shows "chunks string = take 1000 string # chunks (drop 1000 string)"
proof -
  have first: "range_step 0 (length string) 1000 = 0 # range_step 1000 (length string) 1000"
    using assms range_step_Cons [of 1000 0 "length string"] by simp
  have rest: "map (\<lambda>i. slice string i (i + 1000)) (range_step 1000 (length string) 1000)
      = chunks (drop 1000 string)"
  proof (cases "1000 \<le> length string")
    case True
    then have "range_step 1000 (length string) 1000
        = map (\<lambda>x. x + 1000) (range_step 0 (length string - 1000) 1000)"
      using range_step_shift [of 0 1000 "length string - 1000" 1000] by simp
    then show ?thesis
      by (simp add: chunks_def slice_def comp_def add.commute)
  next
    case False
    then show ?thesis
      by (simp add: chunks_def range_step_Nil)
  qed
  have "chunks string = slice string 0 1000 # chunks (drop 1000 string)"
    unfolding chunks_def [of string] first using rest by simp
  then show ?thesis by (simp add: slice_def)
qed

lemma drop_chunk_shorter: "string \<noteq> [] \<Longrightarrow> length (drop 1000 string) < length string"
  by (cases string) auto

lemma ceil_div_step:
  fixes n :: nat
  assumes "0 < n"
  shows "Suc ((n - 1000 + 999) div 1000) = (n + 999) div 1000"
proof (cases "1000 \<le> n")
  case True
  then have "n + 999 = (n - 1000 + 999) + 1 * 1000" by simp
  then have "(n + 999) div 1000 = (n - 1000 + 999) div 1000 + 1"
    by (simp only: div_mult_self3)
  then show ?thesis by simp
next
  case False
  then have a: "n - 1000 + 999 = 999" by simp
  have "(n + 999) div 1000 = 1"
    using assms False by (intro div_nat_eqI) simp_all
  then show ?thesis unfolding a by simp
qed

lemma length_chunks: "length (chunks string) = (length string + 999) div 1000"
proof (induction "length string" arbitrary: string rule: less_induct)
  case less
  show ?case
  proof (cases "string = []")
    case True
    then show ?thesis by (simp add: chunks_Nil)
  next
    case False
    then have "length (chunks (drop 1000 string)) = (length (drop 1000 string) + 999) div 1000"
      using less drop_chunk_shorter by blast
    then have "length (chunks string) = Suc ((length string - 1000 + 999) div 1000)"
      by (simp add: chunks_rec [OF False])
    also have "\<dots> = (length string + 999) div 1000"
      using False by (intro ceil_div_step) simp
    finally show ?thesis .
  qed
qed

lemma concat_chunks: "concat (chunks string) = string"
proof (induction "length string" arbitrary: string rule: less_induct)
  case less
  show ?case
  proof (cases "string = []")
    case True
    then show ?thesis by (simp add: chunks_Nil)
  next
    case False
    then have "concat (chunks (drop 1000 string)) = drop 1000 string"
      using less drop_chunk_shorter by blast
    then show ?thesis
      by (simp add: chunks_rec [OF False])
  qed
qed

lemma chunk_bounds: "c \<in> set (chunks string) \<Longrightarrow> c \<noteq> [] \<and> length c \<le> 1000"
proof (induction "length string" arbitrary: string rule: less_induct)
  case less
  show ?case
  proof (cases "string = []")
    case True
    with less.prems show ?thesis by (simp add: chunks_Nil)
  next
    case False
    from less.prems have "c = take 1000 string \<or> c \<in> set (chunks (drop 1000 string))"
      by (simp add: chunks_rec [OF False])
    then show ?thesis
    proof
      assume "c = take 1000 string"
      with False show ?thesis by simp
    next
      assume "c \<in> set (chunks (drop 1000 string))"
      then show ?thesis
        using less.hyps [of "drop 1000 string"] drop_chunk_shorter [OF False] by blast
    qed
  qed
qed

lemma nth_chunks:
  "k < length (chunks string) \<Longrightarrow>
   chunks string ! k = slice string (1000 * k) (1000 * k + 1000)"
proof (induction k arbitrary: string)
  case 0
  then have "string \<noteq> []" by (auto simp: chunks_Nil)
  then show ?case by (simp add: chunks_rec slice_def)
next
  case (Suc k)
  then have ne: "string \<noteq> []" by (auto simp: chunks_Nil)
  with Suc.prems have "k < length (chunks (drop 1000 string))" by (simp add: chunks_rec)
  then have "chunks (drop 1000 string) ! k
      = slice (drop 1000 string) (1000 * k) (1000 * k + 1000)"
    by (rule Suc.IH)
  then show ?case by (simp add: chunks_rec [OF ne] slice_def add.commute)
qed

text \<open>
  C6. A text of length \<open>L\<close> is cut into exactly \<open>\<lceil>L / 1000\<rceil>\<close> chunks; the chunk
  number \<open>k\<close> is the slice from \<open>1000 k\<close> to \<open>1000 k + 1000\<close>; every chunk has at
  least one and at most 1000 characters; and the chunks, put together in order, are the
  text.
\<close>

theorem chunks_partition:
  "length (chunks string) = (length string + 999) div 1000
   \<and> (\<forall>k < length (chunks string).
         chunks string ! k = slice string (1000 * k) (1000 * k + 1000))
   \<and> (\<forall>c \<in> set (chunks string). c \<noteq> [] \<and> length c \<le> 1000)
   \<and> concat (chunks string) = string"
  using length_chunks nth_chunks chunk_bounds concat_chunks by blast

theorem chunks_partition_witness:
  "length (chunks (replicate 2500 CHR ''a'')) = 3
   \<and> chunks (replicate 2500 CHR ''a'') ! 2 = replicate 500 CHR ''a''
   \<and> length (chunks (replicate 2500 CHR ''a'') ! 2) \<le> 1000
   \<and> concat (chunks (replicate 2500 CHR ''a'')) = replicate 2500 CHR ''a''"
proof -
  let ?T = "replicate 2500 CHR ''a''"
  note p = chunks_partition [of ?T]
  from p have len: "length (chunks ?T) = 3" by simp
  from p len have "chunks ?T ! 2 = slice ?T (1000 * 2) (1000 * 2 + 1000)" by simp
  then have third: "chunks ?T ! 2 = replicate 500 CHR ''a''" by (simp add: slice_def)
  from p have "concat (chunks ?T) = ?T" by blast
  with len third show ?thesis by simp
qed

section \<open>Properties of the token count\<close>

lemma run_pool_no_chunks:
  "loaded st = (\<lambda>i. None) \<Longrightarrow> run_pool encoding [] sched st = st"
proof (induction sched)
  case Nil
  then show ?case by (simp add: run_pool_def)
next
  case (Cons e sched)
  then have "pool_step encoding [] e st = st" by (cases e) simp_all
  with Cons show ?case by (simp add: run_pool_def)
qed

text \<open>
  C7. The count of the empty text is 0: there is no chunk, so no task runs, whatever the
  schedule.
\<close>

theorem count_tokens_empty: "count_tokens encoding sched [] = 0"
  by (simp add: count_tokens_def chunks_Nil run_pool_no_chunks)

lemma run_pool_Nil: "run_pool encoding cs [] st = st"
  by (simp add: run_pool_def)

lemma run_pool_Cons:
  "run_pool encoding cs (e # sched) st = run_pool encoding cs sched (pool_step encoding cs e st)"
  by (simp add: run_pool_def)

lemma serial_Nil: "serial [] = []"
  by (simp add: serial_def)

lemma serial_Cons: "serial (i # order) = Load i # Store i # serial order"
  by (simp add: serial_def)

text \<open>A task that writes before any other worker runs adds the count of its chunk.\<close>

lemma pool_step_task:
  "i < length cs \<Longrightarrow>
   num_tokens (pool_step encoding cs (Store i) (pool_step encoding cs (Load i) st))
     = num_tokens st + chunk_count encoding (cs ! i)"
  by (simp add: count_tokens_in_chunk_def chunk_count_def split: sum.split)

lemma run_pool_serial:
  "\<forall>i \<in> set order. i < length cs \<Longrightarrow>
   num_tokens (run_pool encoding cs (serial order) st)
     = num_tokens st + (\<Sum>i\<leftarrow>order. chunk_count encoding (cs ! i))"
proof (induction order arbitrary: st)
  case Nil
  then show ?case by (simp add: serial_Nil run_pool_Nil)
next
  case (Cons i order)
  let ?st = "pool_step encoding cs (Store i) (pool_step encoding cs (Load i) st)"
  have "num_tokens (run_pool encoding cs (serial order) ?st)
      = num_tokens ?st + (\<Sum>i\<leftarrow>order. chunk_count encoding (cs ! i))"
    using Cons.prems by (intro Cons.IH) simp
  moreover have "num_tokens ?st = num_tokens st + chunk_count encoding (cs ! i)"
    using Cons.prems by (intro pool_step_task) simp
  ultimately show ?case
    by (simp only: serial_Cons run_pool_Cons sum_list.Cons list.map add.assoc)
qed

lemma sum_list_perm:
  fixes f :: "nat \<Rightarrow> nat"
  assumes "mset xs = mset ys"
  shows "(\<Sum>i\<leftarrow>xs. f i) = (\<Sum>i\<leftarrow>ys. f i)"
proof -
  have "(\<Sum>i\<leftarrow>xs. f i) = sum_mset (image_mset f (mset xs))"
    by (simp flip: sum_mset_sum_list)
  also have "\<dots> = sum_mset (image_mset f (mset ys))"
    using assms by simp
  also have "\<dots> = (\<Sum>i\<leftarrow>ys. f i)"
    by (simp flip: sum_mset_sum_list)
  finally show ?thesis .
qed

text \<open>
  When the tasks write one after another, in whatever order, the count is the sum of the
  counts of the chunks.
\<close>

lemma count_tokens_serial:
  assumes "mset order = mset [0..<length (chunks string)]"
  shows "count_tokens encoding (serial order) string
           = (\<Sum>chunk\<leftarrow>chunks string. chunk_count encoding chunk)"
proof -
  let ?cs = "chunks string"
  have "set order = set [0..<length ?cs]"
    using assms by (rule mset_eq_setD)
  then have "\<forall>i \<in> set order. i < length ?cs" by simp
  then have "count_tokens encoding (serial order) string
      = (\<Sum>i\<leftarrow>order. chunk_count encoding (?cs ! i))"
    by (simp add: count_tokens_def run_pool_serial)
  also have "\<dots> = (\<Sum>i\<leftarrow>[0..<length ?cs]. chunk_count encoding (?cs ! i))"
    using assms by (rule sum_list_perm)
  also have "\<dots> = (\<Sum>chunk\<leftarrow>?cs. chunk_count encoding chunk)"
  proof -
    have "map (\<lambda>i. chunk_count encoding (?cs ! i)) [0..<length ?cs]
        = map (\<lambda>chunk. chunk_count encoding chunk) (map (\<lambda>i. ?cs ! i) [0..<length ?cs])"
      by simp
    then show ?thesis by (simp only: map_nth)
  qed
  finally show ?thesis .
qed

text \<open>Such a schedule is one of the schedules of the pool.\<close>

lemma filter_serial_other:
  "i \<notin> set order \<Longrightarrow> filter (\<lambda>e. task_of e = i) (serial order) = []"
  by (induction order) (auto simp: serial_Cons serial_Nil)

lemma filter_serial_task:
  "distinct order \<Longrightarrow> i \<in> set order \<Longrightarrow>
   filter (\<lambda>e. task_of e = i) (serial order) = [Load i, Store i]"
proof (induction order)
  case Nil
  then show ?case by simp
next
  case (Cons j order)
  show ?case
  proof (cases "j = i")
    case True
    with Cons.prems have "i \<notin> set order" by simp
    then show ?thesis using True by (simp add: serial_Cons filter_serial_other)
  next
    case False
    with Cons show ?thesis by (simp add: serial_Cons)
  qed
qed

lemma tasks_serial: "e \<in> set (serial order) \<Longrightarrow> task_of e \<in> set order"
  by (induction order) (auto simp: serial_Cons serial_Nil)

lemma in_flight_serial:
  "in_flight (take k (serial order)) = 0 \<or> in_flight (take k (serial order)) = 1"
proof (induction order arbitrary: k)
  case Nil
  then show ?case by (simp add: serial_Nil)
next
  case (Cons i order)
  show ?case
  proof (cases k)
    case 0
    then show ?thesis by simp
  next
    case (Suc k')
    show ?thesis
    proof (cases k')
      case 0
      with Suc show ?thesis by (simp add: serial_Cons)
    next
      case (Suc k'')
      with \<open>k = Suc k'\<close> Cons.IH [of k''] show ?thesis by (simp add: serial_Cons)
    qed
  qed
qed

lemma wf_schedule_serial:
  assumes "mset order = mset [0..<n]"
  shows "wf_schedule n (serial order)"
proof -
  have s: "set order = {0..<n}"
    using mset_eq_setD [OF assms] by simp
  have d: "distinct order"
    using mset_eq_imp_distinct_iff [OF assms] by simp
  have "\<forall>i \<in> set [0..<n]. filter (\<lambda>e. task_of e = i) (serial order) = [Load i, Store i]"
    using s d by (simp add: filter_serial_task)
  moreover have "\<forall>e \<in> set (serial order). task_of e < n"
    using tasks_serial [of _ order] s by auto
  moreover have "\<forall>k \<in> set [0..<Suc (length (serial order))]. in_flight (take k (serial order)) \<le> 10"
  proof
    fix k
    from in_flight_serial [of k order] show "in_flight (take k (serial order)) \<le> 10" by auto
  qed
  ultimately show ?thesis
    unfolding wf_schedule_def list_all_iff by blast
qed

text \<open>
  The counter never exceeds the counts of the chunks already written, and neither does any
  value a worker holds between its read and its write. So no schedule counts more than
  the sum of the counts of the chunks; a schedule in which two workers overlap counts
  less.
\<close>

lemma run_pool_snoc:
  "run_pool encoding cs (pre @ [e]) st = pool_step encoding cs e (run_pool encoding cs pre st)"
  by (simp add: run_pool_def)

lemma written_mono: "written encoding cs pre \<le> written encoding cs (pre @ [e])"
  unfolding written_def by (rule sum_mono2) auto

lemma written_Store:
  assumes "i < length cs" and "Store i \<notin> set pre"
  shows "written encoding cs (pre @ [Store i])
           = written encoding cs pre + chunk_count encoding (cs ! i)"
proof -
  have "{j. j < length cs \<and> Store j \<in> set (pre @ [Store i])}
      = insert i {j. j < length cs \<and> Store j \<in> set pre}"
    using assms by auto
  moreover have "i \<notin> {j. j < length cs \<and> Store j \<in> set pre}"
    using assms by simp
  ultimately show ?thesis
    unfolding written_def by (simp add: add.commute)
qed

lemma written_le_total:
  "written encoding cs pre \<le> (\<Sum>c\<leftarrow>cs. chunk_count encoding c)"
proof -
  have "written encoding cs pre \<le> (\<Sum>i \<in> {0..<length cs}. chunk_count encoding (cs ! i))"
    unfolding written_def by (rule sum_mono2) auto
  also have "\<dots> = (\<Sum>i\<leftarrow>[0..<length cs]. chunk_count encoding (cs ! i))"
    by (simp add: interv_sum_list_conv_sum_set_nat)
  also have "\<dots> = (\<Sum>c\<leftarrow>cs. chunk_count encoding c)"
  proof -
    have "map (\<lambda>i. chunk_count encoding (cs ! i)) [0..<length cs]
        = map (\<lambda>c. chunk_count encoding c) (map (\<lambda>i. cs ! i) [0..<length cs])"
      by simp
    then show ?thesis by (simp only: map_nth)
  qed
  finally show ?thesis .
qed

lemma written_Load: "written encoding cs (pre @ [Load i]) = written encoding cs pre"
  by (simp add: written_def)

lemma wf_schedule_Load_before:
  assumes "wf_schedule n (pre @ Load i # post)"
  shows "i < n \<and> Store i \<notin> set pre"
proof -
  from assms have tasks: "\<forall>e \<in> set (pre @ Load i # post). task_of e < n"
    and each: "\<forall>j \<in> set [0..<n].
        filter (\<lambda>e. task_of e = j) (pre @ Load i # post) = [Load j, Store j]"
    unfolding wf_schedule_def list_all_iff by blast+
  from tasks have i: "i < n" by auto
  then have "i \<in> set [0..<n]" by simp
  with each have "filter (\<lambda>e. task_of e = i) (pre @ Load i # post) = [Load i, Store i]"
    by blast
  then have "filter (\<lambda>e. task_of e = i) pre @ Load i # filter (\<lambda>e. task_of e = i) post
      = [Load i, Store i]"
    by simp
  then have "filter (\<lambda>e. task_of e = i) pre = []"
    by (cases "filter (\<lambda>e. task_of e = i) pre") (auto simp: append_eq_Cons_conv)
  then have "Store i \<notin> set pre"
    by (auto simp: filter_empty_conv)
  with i show ?thesis by simp
qed

lemma run_pool_invariant:
  assumes wf: "wf_schedule (length cs) sched"
  shows "sched = pre @ post \<Longrightarrow>
         num_tokens (run_pool encoding cs pre \<lparr>num_tokens = 0, loaded = (\<lambda>i. None)\<rparr>)
           \<le> written encoding cs pre
         \<and> (\<forall>i v. loaded (run_pool encoding cs pre \<lparr>num_tokens = 0, loaded = (\<lambda>i. None)\<rparr>) i = Some v
              \<longrightarrow> v \<le> written encoding cs pre \<and> i < length cs \<and> Store i \<notin> set pre)"
proof (induction pre arbitrary: post rule: rev_induct)
  case Nil
  show ?case by (simp add: run_pool_Nil)
next
  case (snoc e pre)
  let ?st = "run_pool encoding cs pre \<lparr>num_tokens = 0, loaded = (\<lambda>i. None)\<rparr>"
  from snoc.prems have split: "sched = pre @ e # post" by simp
  then have ih1: "num_tokens ?st \<le> written encoding cs pre"
    and ih2: "\<And>j u. loaded ?st j = Some u \<Longrightarrow>
        u \<le> written encoding cs pre \<and> j < length cs \<and> Store j \<notin> set pre"
    using snoc.IH [of "e # post"] by blast+
  have up: "\<And>x. x \<le> written encoding cs pre \<Longrightarrow> x \<le> written encoding cs (pre @ [e])"
    using written_mono [of encoding cs pre e] by (rule order_trans [rotated])
  show ?case
  proof (cases e)
    case (Load i)
    with split wf have fresh: "i < length cs" "Store i \<notin> set pre"
      using wf_schedule_Load_before by blast+
    have st': "run_pool encoding cs (pre @ [e]) \<lparr>num_tokens = 0, loaded = (\<lambda>i. None)\<rparr>
        = ?st\<lparr>loaded := (loaded ?st)(i \<mapsto> num_tokens ?st)\<rparr>"
      using fresh by (simp add: run_pool_snoc Load)
    have "num_tokens ?st \<le> written encoding cs (pre @ [e])"
      using ih1 by (rule up)
    moreover have "u \<le> written encoding cs (pre @ [e]) \<and> j < length cs
        \<and> Store j \<notin> set (pre @ [e])"
      if "((loaded ?st)(i \<mapsto> num_tokens ?st)) j = Some u" for j u
    proof (cases "j = i")
      case True
      with that have "u = num_tokens ?st" by simp
      with ih1 up fresh True Load show ?thesis by simp
    next
      case False
      with that have "loaded ?st j = Some u" by simp
      from ih2 [OF this] up Load show ?thesis by simp
    qed
    ultimately show ?thesis unfolding st' by simp
  next
    case (Store i)
    show ?thesis
    proof (cases "loaded ?st i")
      case None
      have st': "run_pool encoding cs (pre @ [e]) \<lparr>num_tokens = 0, loaded = (\<lambda>i. None)\<rparr> = ?st"
        using None by (simp add: run_pool_snoc Store)
      have "num_tokens ?st \<le> written encoding cs (pre @ [e])"
        using ih1 by (rule up)
      moreover have "u \<le> written encoding cs (pre @ [e]) \<and> j < length cs
          \<and> Store j \<notin> set (pre @ [e])"
        if "loaded ?st j = Some u" for j u
      proof -
        from that None have "j \<noteq> i" by auto
        with ih2 [OF that] up Store show ?thesis by simp
      qed
      ultimately show ?thesis unfolding st' by simp
    next
      case (Some v)
      from ih2 [OF Some] have v: "v \<le> written encoding cs pre" "i < length cs"
        "Store i \<notin> set pre"
        by blast+
      then have w: "written encoding cs (pre @ [e])
          = written encoding cs pre + chunk_count encoding (cs ! i)"
        by (simp add: written_Store Store)
      have rest: "u \<le> written encoding cs (pre @ [e]) \<and> j < length cs
          \<and> Store j \<notin> set (pre @ [e])"
        if "((loaded ?st)(i := None)) j = Some u" for j u
      proof -
        from that have "j \<noteq> i" and "loaded ?st j = Some u"
          by (auto split: if_splits)
        with ih2 [of j u] up Store show ?thesis by simp
      qed
      show ?thesis
      proof (cases "encoding (cs ! i)")
        case (Inl x)
        have st': "run_pool encoding cs (pre @ [e]) \<lparr>num_tokens = 0, loaded = (\<lambda>i. None)\<rparr>
            = ?st\<lparr>loaded := (loaded ?st)(i := None)\<rparr>"
          using Some Inl by (simp add: run_pool_snoc Store count_tokens_in_chunk_def)
        have "num_tokens ?st \<le> written encoding cs (pre @ [e])"
          using ih1 by (rule up)
        with rest show ?thesis unfolding st' by simp
      next
        case (Inr tokens)
        then have c: "chunk_count encoding (cs ! i) = length tokens"
          by (simp add: chunk_count_def)
        have st': "run_pool encoding cs (pre @ [e]) \<lparr>num_tokens = 0, loaded = (\<lambda>i. None)\<rparr>
            = ?st\<lparr>num_tokens := v + length tokens,
                  loaded := (loaded ?st)(i := None)\<rparr>"
          using Some Inr by (simp add: run_pool_snoc Store count_tokens_in_chunk_def)
        have "v + length tokens \<le> written encoding cs (pre @ [e])"
          using v w c by simp
        with rest show ?thesis unfolding st' by simp
      qed
    qed
  qed
qed

lemma count_tokens_at_most_sum:
  assumes "wf_schedule (length (chunks string)) sched"
  shows "count_tokens encoding sched string \<le> (\<Sum>chunk\<leftarrow>chunks string. chunk_count encoding chunk)"
proof -
  have "count_tokens encoding sched string \<le> written encoding (chunks string) sched"
    using run_pool_invariant [OF assms, of sched "[]" encoding]
    by (simp add: count_tokens_def)
  then show ?thesis
    using written_le_total [of encoding "chunks string" sched] by simp
qed

lemma additive_returns:
  "additive encoding \<Longrightarrow> \<exists>tokens. encoding s = Inr tokens \<and> chunk_count encoding s = length tokens"
proof -
  assume "additive encoding"
  then obtain tokens where "encoding s = Inr tokens"
    unfolding additive_def by blast
  then show ?thesis by (simp add: chunk_count_def)
qed

lemma additive_Nil: "additive encoding \<Longrightarrow> chunk_count encoding [] = 0"
proof -
  assume "additive encoding"
  then have "chunk_count encoding ([] @ []) = chunk_count encoding [] + chunk_count encoding []"
    unfolding additive_def by blast
  then show ?thesis by simp
qed

lemma additive_concat:
  "additive encoding \<Longrightarrow> (\<Sum>c\<leftarrow>cs. chunk_count encoding c) = chunk_count encoding (concat cs)"
proof (induction cs)
  case Nil
  then show ?case by (simp add: additive_Nil)
next
  case (Cons c cs)
  then show ?case by (simp add: additive_def)
qed

lemma additive_byte_enc: "additive byte_enc"
  by (simp add: additive_def byte_enc_def chunk_count_def)

lemma chunks_1001: "chunks (replicate 1001 c) = [replicate 1000 c, [c]]"
proof -
  have "chunks (replicate 1001 c) = replicate 1000 c # chunks (replicate 1 c)"
    by (subst chunks_rec) simp_all
  also have "chunks (replicate 1 c) = [[c]]"
    by (subst chunks_rec) (simp_all add: chunks_Nil)
  finally show ?thesis .
qed

text \<open>A text of one chunk has one task, and one schedule.\<close>

lemma wf_schedule_single: "wf_schedule 1 sched \<Longrightarrow> sched = [Load 0, Store 0]"
proof -
  assume wf: "wf_schedule 1 sched"
  then have "filter (\<lambda>e. task_of e = 0) sched = [Load 0, Store 0]"
    by (simp add: wf_schedule_def)
  moreover from wf have "\<forall>e \<in> set sched. task_of e = 0"
    by (simp add: wf_schedule_def list_all_iff)
  then have "filter (\<lambda>e. task_of e = 0) sched = sched"
    by (simp add: filter_id_conv)
  ultimately show ?thesis by simp
qed

lemma chunks_single:
  "string \<noteq> [] \<Longrightarrow> length string \<le> 1000 \<Longrightarrow> chunks string = [string]"
  by (simp add: chunks_rec chunks_Nil)

lemma count_tokens_one_task:
  "string \<noteq> [] \<Longrightarrow> length string \<le> 1000 \<Longrightarrow>
   count_tokens encoding [Load 0, Store 0] string = chunk_count encoding string"
  by (simp add: count_tokens_def chunks_single run_pool_def count_tokens_in_chunk_def
      chunk_count_def split: sum.split)

text \<open>
  On a text of at most 1000 characters nothing is cut and no two workers meet: whatever the
  encoder and the schedule, the count is the number of tokens that \<^verbatim>\<open>encode\<close> returns
  for the text,
\<close>

lemma count_tokens_single_chunk:
  assumes "string \<noteq> []" and "length string \<le> 1000"
    and "wf_schedule (length (chunks string)) sched"
    and "encode encoding string = Inr tokens"
  shows "count_tokens encoding sched string = length tokens"
proof -
  have "chunks string = [string]"
    using assms by (simp add: chunks_single)
  with assms have "sched = [Load 0, Store 0]"
    by (simp add: wf_schedule_single)
  with assms show ?thesis
    by (simp add: count_tokens_one_task chunk_count_def encode_def)
qed

text \<open>
  and it is 0 where \<^verbatim>\<open>encode\<close> raises for the text: the exception of the worker is
  never read.
\<close>

lemma count_tokens_swallows:
  assumes "string \<noteq> []" and "length string \<le> 1000"
    and "wf_schedule (length (chunks string)) sched"
    and "encode encoding string = Inl e"
  shows "count_tokens encoding sched string = 0"
proof -
  have "chunks string = [string]"
    using assms by (simp add: chunks_single)
  with assms have "sched = [Load 0, Store 0]"
    by (simp add: wf_schedule_single)
  with assms show ?thesis
    by (simp add: count_tokens_one_task chunk_count_def encode_def)
qed

text \<open>
  For an additive encoder the cuts change nothing: when the tasks write one after another,
  in whatever order, the count is the number of tokens of the whole text.
\<close>

lemma count_tokens_additive:
  assumes "additive encoding"
    and "mset order = mset [0..<length (chunks string)]"
  shows "\<exists>tokens. encode encoding string = Inr tokens
           \<and> count_tokens encoding (serial order) string = length tokens"
proof -
  from assms(1) obtain tokens
    where t: "encoding string = Inr tokens" "chunk_count encoding string = length tokens"
    using additive_returns by blast
  have "count_tokens encoding (serial order) string
      = (\<Sum>chunk\<leftarrow>chunks string. chunk_count encoding chunk)"
    using assms(2) by (rule count_tokens_serial)
  also have "\<dots> = chunk_count encoding (concat (chunks string))"
    using assms(1) by (rule additive_concat)
  finally have "count_tokens encoding (serial order) string = length tokens"
    using t by (simp add: concat_chunks)
  with t show ?thesis by (simp add: encode_def)
qed

text \<open>
  C1. The count is not always the number of tokens of the text, not even for an additive
  encoder, with which no cut changes the number. The encoder with one token per
  character is additive, and the text of 1001 characters has 1001 tokens. When both
  workers read the counter, still 0, before either writes, and the worker of the first
  chunk writes last, the call returns 1000.
\<close>

theorem count_tokens_not_len_encode:
  "additive byte_enc
   \<and> encode byte_enc (replicate 1001 CHR ''a'') = Inr (replicate 1001 97)
   \<and> length (replicate 1001 (97 :: token)) = 1001
   \<and> wf_schedule 2 [Load 0, Load 1, Store 1, Store 0]
   \<and> count_tokens byte_enc [Load 0, Load 1, Store 1, Store 0] (replicate 1001 CHR ''a'') = 1000"
proof -
  have "encode byte_enc (replicate 1001 CHR ''a'') = Inr (replicate 1001 97)"
    by (simp add: encode_def byte_enc_def)
  moreover have "wf_schedule 2 [Load 0, Load 1, Store 1, Store 0]" by code_simp
  moreover have "count_tokens byte_enc [Load 0, Load 1, Store 1, Store 0]
      (replicate 1001 CHR ''a'') = 1000"
    by (simp add: count_tokens_def chunks_1001 run_pool_def count_tokens_in_chunk_def
        byte_enc_def)
  ultimately show ?thesis using additive_byte_enc by simp
qed

text \<open>
  C4. The count is not always the sum of the counts of the chunks. A text of 1001
  characters has two chunks, of 1000 tokens and of 1 token for the encoder with one token
  per character. When both workers read the counter, still 0, before either writes, the
  first writes 1000 and the second overwrites it with 1: the call returns 1, not 1001.
\<close>

theorem count_tokens_lost_update:
  "wf_schedule 2 [Load 0, Load 1, Store 0, Store 1]
   \<and> map (chunk_count byte_enc) (chunks (replicate 1001 CHR ''a'')) = [1000, 1]
   \<and> count_tokens byte_enc [Load 0, Load 1, Store 0, Store 1] (replicate 1001 CHR ''a'') = 1"
proof -
  have wf: "wf_schedule 2 [Load 0, Load 1, Store 0, Store 1]" by code_simp
  have "map (chunk_count byte_enc) (chunks (replicate 1001 CHR ''a'')) = [1000, 1]"
    by (simp add: chunks_1001 byte_enc_def chunk_count_def)
  moreover have "count_tokens byte_enc [Load 0, Load 1, Store 0, Store 1]
      (replicate 1001 CHR ''a'') = 1"
    by (simp add: count_tokens_def chunks_1001 run_pool_def count_tokens_in_chunk_def
        byte_enc_def)
  ultimately show ?thesis using wf by simp
qed

section \<open>Properties of the executor\<close>

text \<open>What \<^verbatim>\<open>execute\<close> returns once the code is formatted and the process has exited with 0.\<close>

lemma execute_result:
  assumes "black_format_str env code = Inr formatted_code"
    and "subprocess_run env [language self, ''-c'', formatted_code] = Inr cp"
    and "returncode cp = 0"
  shows "fst (execute self env code) =
     (if max_output_length self \<noteq> 0
         \<and> max_output_length self
             < int (count_tokens (tokenizer self) (schedule env) (stdout cp))
      then Inr (slice_to (stdout cp) (max_output_length self) @ ''...'')
      else Inr (stdout cp))"
  using assms by (simp add: execute_def format_code_def Let_def)

lemma word_enc_example: "chunk_count word_enc ''a b c d e f g h'' = 15"
  by (simp add: word_enc_def chunk_count_def)

text \<open>
  C2. The process has exited with 0 and \<^verbatim>\<open>max_output_length\<close> is not 0. When the token
  count of the output exceeds it, \<^verbatim>\<open>execute\<close> returns \<^verbatim>\<open>output[:max_output_length]\<close>
  followed by the marker \<^verbatim>\<open>...\<close>: the result ends in the marker and is at most 3
  characters longer than the output, and, for a positive \<^verbatim>\<open>max_output_length\<close>, it is
  the first \<^verbatim>\<open>max_output_length\<close> characters and the marker, at most
  \<^verbatim>\<open>max_output_length + 3\<close> characters. When the count does not exceed it, the output is
  returned unchanged.
\<close>

theorem execute_truncates:
  assumes "black_format_str env code = Inr formatted_code"
    and "subprocess_run env [language self, ''-c'', formatted_code] = Inr cp"
    and "returncode cp = 0"
    and "max_output_length self \<noteq> 0"
  shows "(max_output_length self < int (count_tokens (tokenizer self) (schedule env) (stdout cp))
            \<longrightarrow> fst (execute self env code)
                  = Inr (slice_to (stdout cp) (max_output_length self) @ ''...'')
              \<and> suffix ''...'' (slice_to (stdout cp) (max_output_length self) @ ''...'')
              \<and> length (slice_to (stdout cp) (max_output_length self) @ ''...'')
                  \<le> length (stdout cp) + 3
              \<and> (0 < max_output_length self
                  \<longrightarrow> slice_to (stdout cp) (max_output_length self)
                        = take (nat (max_output_length self)) (stdout cp)
                    \<and> length (slice_to (stdout cp) (max_output_length self) @ ''...'')
                        \<le> nat (max_output_length self) + 3))
         \<and> (\<not> max_output_length self
                < int (count_tokens (tokenizer self) (schedule env) (stdout cp))
            \<longrightarrow> fst (execute self env code) = Inr (stdout cp))"
proof -
  have "suffix ''...'' (slice_to (stdout cp) (max_output_length self) @ ''...'')"
    by (rule suffix_appendI) simp
  moreover have "length (slice_to (stdout cp) (max_output_length self) @ ''...'')
      \<le> length (stdout cp) + 3"
    by (auto simp: slice_to_def)
  moreover have "0 < max_output_length self
      \<longrightarrow> slice_to (stdout cp) (max_output_length self)
            = take (nat (max_output_length self)) (stdout cp)
        \<and> length (slice_to (stdout cp) (max_output_length self) @ ''...'')
            \<le> nat (max_output_length self) + 3"
    by (simp add: slice_to_def)
  ultimately show ?thesis
    using assms by (simp only: execute_result) simp
qed

theorem execute_truncates_witness:
  "fst (execute (code_executor 5 word_enc) (env_exits 0 ''a b c d e f g h'' []) ''print(1)'')
     = Inr ''a b c...''
   \<and> fst (execute (code_executor 1000 word_enc) (env_exits 0 ''hello'' []) ''print(1)'')
     = Inr ''hello''"
proof -
  let ?env = "env_exits 0 ''a b c d e f g h'' []"
  have "count_tokens word_enc [Load 0, Store 0] ''a b c d e f g h'' = 15"
    using count_tokens_one_task [of "''a b c d e f g h''" word_enc]
    by (simp add: word_enc_example)
  then have "max_output_length (code_executor 5 word_enc)
      < int (count_tokens (tokenizer (code_executor 5 word_enc)) (schedule ?env) (stdout
          \<lparr>returncode = 0, stdout = ''a b c d e f g h'', stderr = []\<rparr>))"
    by (simp add: code_executor_def env_exits_def)
  with execute_truncates [of ?env "''print(1)''" "''print(1)''" "code_executor 5 word_enc"
      "\<lparr>returncode = 0, stdout = ''a b c d e f g h'', stderr = []\<rparr>"]
  have a: "fst (execute (code_executor 5 word_enc) ?env ''print(1)'') = Inr ''a b c...''"
    by (simp add: code_executor_def env_exits_def slice_to_def)
  let ?env' = "env_exits 0 ''hello'' []"
  have "count_tokens word_enc [Load 0, Store 0] ''hello'' = 1"
    by (simp add: count_tokens_one_task) (simp add: word_enc_def chunk_count_def)
  then have "\<not> max_output_length (code_executor 1000 word_enc)
      < int (count_tokens (tokenizer (code_executor 1000 word_enc)) (schedule ?env') (stdout
          \<lparr>returncode = 0, stdout = ''hello'', stderr = []\<rparr>))"
    by (simp add: code_executor_def env_exits_def)
  with execute_truncates [of ?env' "''print(1)''" "''print(1)''" "code_executor 1000 word_enc"
      "\<lparr>returncode = 0, stdout = ''hello'', stderr = []\<rparr>"]
  have b: "fst (execute (code_executor 1000 word_enc) ?env' ''print(1)'') = Inr ''hello''"
    by (simp add: code_executor_def env_exits_def)
  from a b show ?thesis by simp
qed

text \<open>
  C3. When the process exits with a status other than 0, \<^verbatim>\<open>execute\<close> raises a
  \<^verbatim>\<open>RuntimeError\<close> whose message is \<^verbatim>\<open>Error executing code: \<close> followed by the captured
  standard error, which the message therefore contains. No output is returned: the result
  is the error, after one run of the process.
\<close>

theorem execute_nonzero_exit:
  assumes "black_format_str env code = Inr formatted_code"
    and "subprocess_run env [language self, ''-c'', formatted_code] = Inr cp"
    and "returncode cp \<noteq> 0"
  shows "execute self env code =
           (Inl (RuntimeError (''Error executing code: '' @ stderr cp)),
            [Format code, Log INFO (''Executing code:'' @ [CHR 0x0A] @ formatted_code),
             Run [language self, ''-c'', formatted_code],
             Log ERROR (''Error executing code: '' @ stderr cp)])
         \<and> sublist (stderr cp) (''Error executing code: '' @ stderr cp)"
proof
  show "execute self env code =
           (Inl (RuntimeError (''Error executing code: '' @ stderr cp)),
            [Format code, Log INFO (''Executing code:'' @ [CHR 0x0A] @ formatted_code),
             Run [language self, ''-c'', formatted_code],
             Log ERROR (''Error executing code: '' @ stderr cp)])"
    using assms by (simp add: execute_def format_code_def Let_def)
  show "sublist (stderr cp) (''Error executing code: '' @ stderr cp)"
    by (rule sublist_append_leftI)
qed

theorem execute_nonzero_exit_witness:
  "fst (execute (code_executor 1000 word_enc) (env_exits 1 [] ''boom'') ''raise SystemExit(1)'')
     = Inl (RuntimeError ''Error executing code: boom'')
   \<and> sublist ''boom'' ''Error executing code: boom''"
  using execute_nonzero_exit [of "env_exits 1 [] ''boom''" "''raise SystemExit(1)''"
      "''raise SystemExit(1)''" "code_executor 1000 word_enc"
      "\<lparr>returncode = 1, stdout = [], stderr = ''boom''\<rparr>"]
  by (simp add: code_executor_def env_exits_def)

text \<open>
  C8. When the formatter rejects the code, \<^verbatim>\<open>format_code\<close> raises a \<^verbatim>\<open>ValueError\<close> with
  the formatter's message, and \<^verbatim>\<open>execute\<close> ends with the same error: the formatter has
  been called once, the error is logged, no process is started and no output is returned.
\<close>

theorem format_failure:
  assumes "black_format_str env code = Inl e"
  shows "format_code env code =
           (Inl (ValueError (''Error formatting code: '' @ e)),
            [Format code, Log ERROR (''Error formatting code: '' @ e)])
         \<and> execute self env code = format_code env code"
  using assms by (simp add: execute_def format_code_def)

theorem format_failure_witness:
  "execute (code_executor 1000 word_enc) (env_unparsable ''Cannot parse'') ''def f(:''
     = (Inl (ValueError ''Error formatting code: Cannot parse''),
        [Format ''def f(:'', Log ERROR ''Error formatting code: Cannot parse''])"
  using format_failure [of "env_unparsable ''Cannot parse''" "''def f(:''" "''Cannot parse''"
      "code_executor 1000 word_enc"]
  by (simp add: env_unparsable_def)

text \<open>
  C9. With \<^verbatim>\<open>max_output_length\<close> 0 the output of a process that has exited with 0 is
  returned unchanged, whatever its token count.
\<close>

theorem execute_zero_max:
  assumes "max_output_length self = 0"
    and "black_format_str env code = Inr formatted_code"
    and "subprocess_run env [language self, ''-c'', formatted_code] = Inr cp"
    and "returncode cp = 0"
  shows "fst (execute self env code) = Inr (stdout cp)"
  using assms by (simp add: execute_result)

theorem execute_zero_max_witness:
  "count_tokens word_enc [Load 0, Store 0] ''a b c d e f g h'' = 15
   \<and> fst (execute (code_executor 0 word_enc) (env_exits 0 ''a b c d e f g h'' []) ''print(1)'')
       = Inr ''a b c d e f g h''"
proof -
  have "count_tokens word_enc [Load 0, Store 0] ''a b c d e f g h'' = 15"
    using count_tokens_one_task [of "''a b c d e f g h''" word_enc]
    by (simp add: word_enc_example)
  moreover have "fst (execute (code_executor 0 word_enc)
      (env_exits 0 ''a b c d e f g h'' []) ''print(1)'') = Inr ''a b c d e f g h''"
    using execute_zero_max [of "code_executor 0 word_enc" "env_exits 0 ''a b c d e f g h'' []"
        "''print(1)''" "''print(1)''"
        "\<lparr>returncode = 0, stdout = ''a b c d e f g h'', stderr = []\<rparr>"]
    by (simp add: code_executor_def env_exits_def)
  ultimately show ?thesis by simp
qed

text \<open>
  C10. The length to which the output is cut is the token threshold itself, but the result
  is not always its first \<^verbatim>\<open>max_output_length\<close> characters and the marker: with
  \<^verbatim>\<open>max_output_length = -2\<close> every output exceeds the threshold and loses its last two
  characters, so that \<^verbatim>\<open>hello\<close> becomes \<^verbatim>\<open>hel...\<close>, of 6 characters and not of
  \<^verbatim>\<open>-2 + 3\<close>.
\<close>

theorem execute_negative_max_counterexample:
  "fst (execute (code_executor (- 2) byte_enc) (env_exits 0 ''hello'' []) ''print(1)'')
     = Inr ''hel...''
   \<and> - 2 < int (count_tokens byte_enc [Load 0, Store 0] ''hello'')
   \<and> - 2 \<le> int (length ''hello'')
   \<and> ''hel...'' \<noteq> take (nat (- 2)) ''hello'' @ ''...''
   \<and> int (length ''hel...'') \<noteq> - 2 + 3"
  by (simp add: execute_def format_code_def Let_def code_executor_def env_exits_def
      slice_to_def count_tokens_one_task byte_enc_def chunk_count_def)

text \<open>
  C10, amended. For a positive \<^verbatim>\<open>max_output_length\<close> that the token count of the output
  exceeds, the result is the first \<^verbatim>\<open>max_output_length\<close> characters of the output followed
  by \<^verbatim>\<open>...\<close>, of \<^verbatim>\<open>max_output_length + 3\<close> characters when the output has at least
  \<^verbatim>\<open>max_output_length\<close> characters.
\<close>

theorem execute_truncation_length:
  assumes "black_format_str env code = Inr formatted_code"
    and "subprocess_run env [language self, ''-c'', formatted_code] = Inr cp"
    and "returncode cp = 0"
    and "0 < max_output_length self"
    and "max_output_length self < int (count_tokens (tokenizer self) (schedule env) (stdout cp))"
  shows "fst (execute self env code)
           = Inr (take (nat (max_output_length self)) (stdout cp) @ ''...'')
         \<and> (max_output_length self \<le> int (length (stdout cp))
              \<longrightarrow> int (length (take (nat (max_output_length self)) (stdout cp) @ ''...''))
                    = max_output_length self + 3)"
  using assms by (simp add: execute_result slice_to_def)

theorem execute_truncation_length_witness:
  "fst (execute (code_executor 3 byte_enc) (env_exits 0 ''hello'' []) ''print(1)'')
     = Inr ''hel...''
   \<and> int (length ''hel...'') = 3 + 3"
proof -
  have "count_tokens byte_enc [Load 0, Store 0] ''hello'' = 5"
    by (simp add: count_tokens_one_task byte_enc_def chunk_count_def)
  then have "max_output_length (code_executor 3 byte_enc)
      < int (count_tokens (tokenizer (code_executor 3 byte_enc))
          (schedule (env_exits 0 ''hello'' []))
          (stdout \<lparr>returncode = 0, stdout = ''hello'', stderr = []\<rparr>))"
    by (simp add: code_executor_def env_exits_def)
  with execute_truncation_length [of "env_exits 0 ''hello'' []" "''print(1)''" "''print(1)''"
      "code_executor 3 byte_enc" "\<lparr>returncode = 0, stdout = ''hello'', stderr = []\<rparr>"]
  show ?thesis
    by (simp add: code_executor_def env_exits_def)
qed

end
